theory Spec2Isabelle
  imports
    Complex_Main
    "HOL-Library.Monad_Syntax"
    "HOL-Library.Char_ord"
    "HOL-Library.List_Lexorder"
    "HOL-Library.Product_Lexorder"
begin

section \<open>Sales Trend Explorer: data generation and aggregation (app.py)\<close>

text \<open>
  The program is one Python file. \<^verbatim>\<open>load_sample_data\<close> draws 5000 synthetic orders
  from numpy's global random state, and the chart functions reduce a (filtered) data
  frame with pandas \<^verbatim>\<open>groupby(...).sum()\<close>.

  Conventions of the embedding:
  \<^item> a data frame is the list of its rows, in row order;
  \<^item> Python strings are \<open>string\<close>, compared as Python compares them (code point by code
    point, which \<open>List_Lexorder\<close> over \<open>Char_ord\<close> gives for the ASCII labels used);
  \<^item> \<^verbatim>\<open>float\<close> values (Sales, Profit) are \<open>real\<close>: arithmetic is exact, rounding of
    IEEE doubles is not represented;
  \<^item> a Python exception is the value \<open>None\<close> of an option result;
  \<^item> numpy's global random state is an explicit state of type \<open>'g\<close> that every draw
    takes and returns. The generator behind it (Mersenne Twister) is not part of the
    program: it is a parameter, a record of the four numpy calls the program makes;
  \<^item> the sort that \<^verbatim>\<open>sort_values\<close> hands to numpy is a parameter as well, since the
    default kind leaves the order of equal values open.
\<close>

subsection \<open>Calendar dates\<close>

text \<open>
  A date is (year, month, day); a monthly period (pandas \<^verbatim>\<open>to_period('M')\<close>) is
  (year, month). Both are ordered lexicographically, which is chronological order.
\<close>

type_synonym date = "int \<times> int \<times> int"
type_synonym period = "int \<times> int"

definition is_leap :: "int \<Rightarrow> bool" where
  "is_leap y \<longleftrightarrow> (y mod 4 = 0 \<and> y mod 100 \<noteq> 0) \<or> y mod 400 = 0"

definition days_in_month :: "int \<Rightarrow> int \<Rightarrow> int" where
  "days_in_month y m =
     (if m = 2 then (if is_leap y then 29 else 28)
      else if m = 4 \<or> m = 6 \<or> m = 9 \<or> m = 11 then 30 else 31)"

fun next_day :: "date \<Rightarrow> date" where
  "next_day (y, m, d) =
     (if d < days_in_month y m then (y, m, d + 1)
      else if m < 12 then (y, m + 1, 1)
      else (y + 1, 1, 1))"

definition days_before_year :: "int \<Rightarrow> int" where
  "days_before_year y = 365 * (y - 1) + (y - 1) div 4 - (y - 1) div 100 + (y - 1) div 400"

definition days_before_month :: "int \<Rightarrow> int \<Rightarrow> int" where
  "days_before_month y m = sum_list (map (days_in_month y) [1 .. m - 1])"

fun toordinal :: "date \<Rightarrow> int" where
  "toordinal (y, m, d) = days_before_year y + days_before_month y m + d"

fun days_from :: "nat \<Rightarrow> date \<Rightarrow> date list" where
  "days_from 0 d = []"
| "days_from (Suc n) d = d # days_from n (next_day d)"

text \<open>\<^verbatim>\<open>pd.date_range(start, end, freq='D')\<close>: every day from start to end, both included.\<close>

definition date_range :: "date \<Rightarrow> date \<Rightarrow> date list" where
  "date_range start end = days_from (nat (toordinal end - toordinal start + 1)) start"

subsection \<open>Python containers\<close>

text \<open>\<^verbatim>\<open>a[i]\<close> on a sequence: a negative index counts from the end, out of range raises.\<close>

definition py_index :: "'a list \<Rightarrow> int \<Rightarrow> 'a option" where
  "py_index a i =
     (let n = int (length a); j = (if i < 0 then i + n else i)
      in if 0 \<le> j \<and> j < n then Some (a ! nat j) else None)"

text \<open>\<^verbatim>\<open>d[k]\<close> on a dict literal: a missing key raises KeyError.\<close>

definition py_getitem :: "('k \<times> 'v) list \<Rightarrow> 'k \<Rightarrow> 'v option" where
  "py_getitem d k = map_of d k"

subsection \<open>numpy's random state\<close>

text \<open>
  The four calls the program makes on \<^verbatim>\<open>np.random\<close>. Each draw reads the state and
  returns the advanced state; \<open>seed\<close> replaces the state.
\<close>

record 'g random_state =
  seed :: "int \<Rightarrow> 'g"
  randint :: "int \<Rightarrow> int \<Rightarrow> 'g \<Rightarrow> int \<times> 'g"
  normal :: "real \<Rightarrow> real \<Rightarrow> 'g \<Rightarrow> real \<times> 'g"
  uniform :: "real \<Rightarrow> real \<Rightarrow> 'g \<Rightarrow> real \<times> 'g"

text \<open>
  What numpy documents of these calls: \<^verbatim>\<open>randint(low, high)\<close> returns an integer of
  the half-open interval [low, high); \<^verbatim>\<open>uniform(low, high)\<close> returns a float between
  low and high (high itself is possible through rounding). \<^verbatim>\<open>normal\<close> may return any
  float.
\<close>

definition random_state_ok :: "'g random_state \<Rightarrow> bool" where
  "random_state_ok R \<longleftrightarrow>
     (\<forall>lo hi g. lo < hi \<longrightarrow> lo \<le> fst (randint R lo hi g) \<and> fst (randint R lo hi g) < hi) \<and>
     (\<forall>lo hi g. lo \<le> hi \<longrightarrow> lo \<le> fst (uniform R lo hi g) \<and> fst (uniform R lo hi g) \<le> hi)"

text \<open>
  \<^verbatim>\<open>np.random.choice(a)\<close> on a one-dimensional sequence: ValueError on an empty one,
  otherwise the element at index \<^verbatim>\<open>randint(0, len(a))\<close>.
\<close>

definition choice :: "'g random_state \<Rightarrow> 'a list \<Rightarrow> 'g \<Rightarrow> ('a \<times> 'g) option" where
  "choice R a g =
     (if a = [] then None
      else (case randint R 0 (int (length a)) g of
              (idx, g') \<Rightarrow> map_option (\<lambda>x. (x, g')) (py_index a idx)))"

subsection \<open>load_sample_data\<close>

record order =
  order_date :: date
  category :: string
  sub_category :: string
  region :: string
  sales :: real
  profit :: real
  quantity :: int

text \<open>A row of the data frame: the order and the three columns derived from its date.\<close>

record row = order +
  year :: int
  month :: int
  year_month :: period

definition dates :: "date list" where
  "dates = date_range (2021, 1, 1) (2023, 12, 31)"

definition categories :: "string list" where
  "categories = [''Technology'', ''Furniture'', ''Office Supplies'']"

definition subcategories :: "(string \<times> string list) list" where
  "subcategories =
     [(''Technology'', [''Phones'', ''Computers'', ''Accessories'']),
      (''Furniture'', [''Chairs'', ''Tables'', ''Storage'']),
      (''Office Supplies'', [''Paper'', ''Binders'', ''Art''])]"

definition regions :: "string list" where
  "regions = [''Central'', ''East'', ''South'', ''West'']"

definition base_sales_dict :: "(string \<times> real) list" where
  "base_sales_dict = [(''Technology'', 1000), (''Furniture'', 800), (''Office Supplies'', 300)]"

text \<open>
  One iteration of the loop (lines 54 to 73): seven draws in this order, the profit
  computed from the drawn sales, the stored sales raised to 50. The local variables
  carry a prime, their names being the field names of the record.
\<close>

definition loop_body :: "'g random_state \<Rightarrow> 'g \<Rightarrow> (order \<times> 'g) option" where
  "loop_body R g = do {
     (date', g1) \<leftarrow> choice R dates g;
     (category', g2) \<leftarrow> choice R categories g1;
     subs \<leftarrow> py_getitem subcategories category';
     (subcategory', g3) \<leftarrow> choice R subs g2;
     (region', g4) \<leftarrow> choice R regions g3;
     base_sales \<leftarrow> py_getitem base_sales_dict category';
     (case normal R base_sales (base_sales * 0.3) g4 of (sales', g5) \<Rightarrow>
      case uniform R 0.1 0.3 g5 of (factor, g6) \<Rightarrow>
      case randint R 1 10 g6 of (quantity', g7) \<Rightarrow>
        Some (\<lparr>order_date = date', category = category', sub_category = subcategory',
                region = region', sales = max sales' 50, profit = sales' * factor,
                quantity = quantity'\<rparr>, g7))
   }"

text \<open>\<^verbatim>\<open>for _ in range(n): ... data.append(...)\<close>\<close>

fun gen_data :: "'g random_state \<Rightarrow> nat \<Rightarrow> 'g \<Rightarrow> (order list \<times> 'g) option" where
  "gen_data R 0 g = Some ([], g)"
| "gen_data R (Suc n) g = do {
     (x, g1) \<leftarrow> loop_body R g;
     (xs, g2) \<leftarrow> gen_data R n g1;
     Some (x # xs, g2)
   }"

text \<open>Lines 75 to 79: the Year, Month and Year-Month columns.\<close>

definition add_columns :: "order \<Rightarrow> row" where
  "add_columns x =
     (case order_date x of (y, m, d) \<Rightarrow>
        order.extend x \<lparr>year = y, month = m, year_month = (y, m)\<rparr>)"

text \<open>
  The function re-seeds the global state with 42 before the first draw, whatever the
  state was; it returns the frame and leaves the advanced state behind. The decorator
  \<^verbatim>\<open>st.cache_data\<close> hands the stored frame back on later calls; what is modelled is a
  call that runs the body.
\<close>

definition load_sample_data :: "'g random_state \<Rightarrow> 'g \<Rightarrow> (row list \<times> 'g) option" where
  "load_sample_data R g = do {
     (data, g') \<leftarrow> gen_data R 5000 (seed R 42);
     Some (map add_columns data, g')
   }"

subsection \<open>pandas: groupby, sum, sort_values, unstack\<close>

text \<open>
  \<^verbatim>\<open>df.groupby(keys)[col].sum()\<close>: the rows are read in order, each adds its value
  to the running total of its group (a new group is opened at its first row), and the
  totals are returned sorted by group key (\<^verbatim>\<open>sort=True\<close> is the default). An empty
  frame has no group.
\<close>

fun group_add :: "'k \<Rightarrow> real \<Rightarrow> ('k \<times> real) list \<Rightarrow> ('k \<times> real) list" where
  "group_add k v [] = [(k, v)]"
| "group_add k v ((k', t) # gs) =
     (if k' = k then (k', t + v) # gs else (k', t) # group_add k v gs)"

definition group_totals :: "('r \<Rightarrow> 'k) \<Rightarrow> ('r \<Rightarrow> real) \<Rightarrow> 'r list \<Rightarrow> ('k \<times> real) list" where
  "group_totals key col df = foldl (\<lambda>gs r. group_add (key r) (col r) gs) [] df"

definition groupby_sum ::
  "('r \<Rightarrow> 'k::linorder) \<Rightarrow> ('r \<Rightarrow> real) \<Rightarrow> 'r list \<Rightarrow> ('k \<times> real) list" where
  "groupby_sum key col df = sort_key fst (group_totals key col df)"

text \<open>
  \<^verbatim>\<open>a.argsort(kind=...)\<close> of numpy: the indices that put the array in ascending
  order. Which of two equal values comes first depends on the kind of sort; the default
  kind of \<^verbatim>\<open>sort_values\<close>, quicksort, promises nothing there. The routine is
  therefore a parameter, held only to what numpy documents of every kind: the result
  lists each index once and reads the values in ascending order.
\<close>

type_synonym argsort = "real list \<Rightarrow> nat list"

definition argsort_ok :: "argsort \<Rightarrow> bool" where
  "argsort_ok kind \<longleftrightarrow>
     (\<forall>a. distinct (kind a) \<and> set (kind a) = {0 ..< length a} \<and>
          sorted (map (\<lambda>i. a ! i) (kind a)))"

text \<open>
  pandas \<^verbatim>\<open>nargsort(items, kind, ascending)\<close>, which \<^verbatim>\<open>Series.sort_values\<close> calls:
  for a descending sort the values and their positions are reversed, sorted ascending,
  and the resulting positions reversed again. (The values here are never NaN.) The
  positions index the series; a routine that keeps the contract returns none out of
  range.
\<close>

definition nargsort :: "argsort \<Rightarrow> bool \<Rightarrow> real list \<Rightarrow> nat list" where
  "nargsort kind ascending items =
     (let idx = [0 ..< length items]
      in if ascending then map (\<lambda>j. idx ! j) (kind items)
         else rev (map (\<lambda>j. rev idx ! j) (kind (rev items))))"

definition sort_values :: "argsort \<Rightarrow> bool \<Rightarrow> ('k \<times> real) list \<Rightarrow> ('k \<times> real) list" where
  "sort_values kind ascending s = map (\<lambda>i. s ! i) (nargsort kind ascending (map snd s))"

text \<open>
  \<^verbatim>\<open>Series.unstack(fill_value=...)\<close> on a series indexed by pairs: the rows are the
  first components that occur, the columns the second components that occur, both
  sorted; a cell with no entry in the series holds the fill value.
\<close>

definition unstack ::
  "real \<Rightarrow> (('a::linorder \<times> 'b::linorder) \<times> real) list \<Rightarrow> ('a \<times> ('b \<times> real) list) list" where
  "unstack fill_value s =
     (let index = sort (remdups (map (\<lambda>(k, v). fst k) s));
          columns = sort (remdups (map (\<lambda>(k, v). snd k) s))
      in map (\<lambda>i. (i, map (\<lambda>c. (c, case map_of s (i, c) of
                                         Some v \<Rightarrow> v | None \<Rightarrow> fill_value)) columns)) index)"

text \<open>\<^verbatim>\<open>frame.loc[i, c]\<close>: the cell of row i and column c, KeyError when there is none.\<close>

definition loc :: "('a \<times> ('b \<times> real) list) list \<Rightarrow> 'a \<Rightarrow> 'b \<Rightarrow> real option" where
  "loc frame i c = (case map_of frame i of None \<Rightarrow> None | Some cells \<Rightarrow> map_of cells c)"

subsection \<open>The tables behind the four charts\<close>

text \<open>
  Line 85, \<^verbatim>\<open>create_line_plot\<close>: one row (Year-Month, Category, Sales) per group.
  Line 86 then replaces each period by its text; the rows and their order stay.
\<close>

definition monthly_sales :: "row list \<Rightarrow> (period \<times> string \<times> real) list" where
  "monthly_sales df =
     map (\<lambda>((ym, c), t). (ym, c, t))
       (groupby_sum (\<lambda>r. (year_month r, category r)) sales df)"

text \<open>Line 96, \<^verbatim>\<open>create_bar_chart\<close>.\<close>

definition category_sales :: "row list \<Rightarrow> (string \<times> real) list" where
  "category_sales df = groupby_sum category sales df"

text \<open>Line 192, in \<^verbatim>\<open>main\<close>; \<open>kind\<close> is the sort that the default of pandas runs.\<close>

definition top_subcats :: "argsort \<Rightarrow> row list \<Rightarrow> (string \<times> real) list" where
  "top_subcats kind df = take 5 (sort_values kind False (groupby_sum sub_category sales df))"

text \<open>Line 107, \<^verbatim>\<open>create_heatmap\<close>.\<close>

definition heatmap_data :: "row list \<Rightarrow> (string \<times> (string \<times> real) list) list" where
  "heatmap_data df = unstack 0 (groupby_sum (\<lambda>r. (region r, category r)) sales df)"

subsection \<open>main: the filter and the guarded charts\<close>

text \<open>Lines 140 to 144.\<close>

definition filtered_df :: "row list \<Rightarrow> int list \<Rightarrow> string list \<Rightarrow> string list \<Rightarrow> row list" where
  "filtered_df df selected_years selected_categories selected_regions =
     filter (\<lambda>r. year r \<in> set selected_years \<and> category r \<in> set selected_categories \<and>
                 region r \<in> set selected_regions) df"

text \<open>
  Lines 171 to 199: each table is computed only when the filtered frame has a row
  (\<^verbatim>\<open>if len(filtered_df) > 0\<close>); otherwise the chart is skipped (\<open>None\<close>).
\<close>

record charts =
  line_fig :: "(period \<times> string \<times> real) list option"
  bar_fig :: "(string \<times> real) list option"
  top_chart :: "(string \<times> real) list option"
  heatmap_fig :: "(string \<times> (string \<times> real) list) list option"

definition sales_analysis :: "argsort \<Rightarrow> row list \<Rightarrow> charts" where
  "sales_analysis kind fdf =
     \<lparr>line_fig = (if length fdf > 0 then Some (monthly_sales fdf) else None),
      bar_fig = (if length fdf > 0 then Some (category_sales fdf) else None),
      top_chart = (if length fdf > 0 then Some (top_subcats kind fdf) else None),
      heatmap_fig = (if length fdf > 0 then Some (heatmap_data fdf) else None)\<rparr>"

subsection \<open>Sample inputs\<close>

text \<open>
  A random state whose draws are the lowest each call allows, with the normal draw
  3.2 standard deviations under the mean.
\<close>

definition low_rng :: "nat random_state" where
  "low_rng =
     \<lparr>seed = (\<lambda>s. 0),
      randint = (\<lambda>lo hi g. (lo, g + 1)),
      normal = (\<lambda>mu sigma g. (mu - 3.2 * sigma, g + 1)),
      uniform = (\<lambda>lo hi g. (lo, g + 1))\<rparr>"

text \<open>A random state whose normal draw is the mean and whose uniform draw the midpoint.\<close>

definition mid_rng :: "nat random_state" where
  "mid_rng =
     \<lparr>seed = (\<lambda>s. 0),
      randint = (\<lambda>lo hi g. (lo, g + 1)),
      normal = (\<lambda>mu sigma g. (mu, g + 1)),
      uniform = (\<lambda>lo hi g. ((lo + hi) / 2, g + 1))\<rparr>"

definition mk_row :: "date \<Rightarrow> string \<Rightarrow> string \<Rightarrow> string \<Rightarrow> real \<Rightarrow> row" where
  "mk_row d c sc rg s =
     add_columns \<lparr>order_date = d, category = c, sub_category = sc, region = rg,
                   sales = s, profit = 0, quantity = 1\<rparr>"

text \<open>
  Two sorts that numpy's contract admits: one keeps equal values in the order of the
  array (a stable sort), the other puts them in the opposite order.
\<close>

definition stable_argsort :: argsort where
  "stable_argsort a = map snd (sort_key fst (zip a [0 ..< length a]))"

definition reversing_argsort :: argsort where
  "reversing_argsort a = map snd (sort_key fst (rev (zip a [0 ..< length a])))"

text \<open>The four hand-built records of the end-to-end scenario.\<close>

definition scenario :: "row list" where
  "scenario =
     [mk_row (2021, 1, 15) ''Technology'' ''Phones'' ''East'' 100,
      mk_row (2021, 1, 20) ''Technology'' ''Computers'' ''West'' 200,
      mk_row (2021, 2, 3) ''Furniture'' ''Chairs'' ''East'' 50,
      mk_row (2021, 2, 9) ''Furniture'' ''Chairs'' ''East'' 150]"

text \<open>Six rows, one for each of six sub-categories, all with the same sales.\<close>

definition six_equal :: "row list" where
  "six_equal =
     [mk_row (2022, 3, 1) ''Technology'' ''Phones'' ''East'' 100,
      mk_row (2022, 3, 2) ''Technology'' ''Computers'' ''East'' 100,
      mk_row (2022, 3, 3) ''Technology'' ''Accessories'' ''East'' 100,
      mk_row (2022, 3, 4) ''Furniture'' ''Chairs'' ''East'' 100,
      mk_row (2022, 3, 5) ''Furniture'' ''Tables'' ''East'' 100,
      mk_row (2022, 3, 6) ''Furniture'' ''Storage'' ''East'' 100]"

section \<open>The generator\<close>

subsection \<open>Draws within their documented ranges\<close>

lemma randint_range:
  assumes "random_state_ok R" and "lo < hi" and "randint R lo hi g = (x, g')"
  shows "lo \<le> x \<and> x < hi"
proof -
  from assms(1,2) have "lo \<le> fst (randint R lo hi g) \<and> fst (randint R lo hi g) < hi"
    unfolding random_state_ok_def by blast
  with assms(3) show ?thesis by simp
qed

lemma uniform_range:
  assumes "random_state_ok R" and "lo \<le> hi" and "uniform R lo hi g = (x, g')"
  shows "lo \<le> x \<and> x \<le> hi"
proof -
  from assms(1,2) have "lo \<le> fst (uniform R lo hi g) \<and> fst (uniform R lo hi g) \<le> hi"
    unfolding random_state_ok_def by blast
  with assms(3) show ?thesis by simp
qed

lemma py_index_in_range:
  "0 \<le> i \<Longrightarrow> i < int (length a) \<Longrightarrow> py_index a i = Some (a ! nat i)"
  by (simp add: py_index_def Let_def)

lemma choice_some:
  assumes ok: "random_state_ok R" and ne: "a \<noteq> []"
  shows "\<exists>x g'. choice R a g = Some (x, g') \<and> x \<in> set a"
proof -
  obtain idx g' where draw: "randint R 0 (int (length a)) g = (idx, g')"
    by (cases "randint R 0 (int (length a)) g")
  from ne have "(0::int) < int (length a)" by simp
  from randint_range [OF ok this draw] have bounds: "0 \<le> idx" "idx < int (length a)"
    by simp_all
  then have "py_index a idx = Some (a ! nat idx)" by (rule py_index_in_range)
  with draw ne have "choice R a g = Some (a ! nat idx, g')"
    by (simp add: choice_def)
  moreover from bounds have "a ! nat idx \<in> set a" by simp
  ultimately show ?thesis by blast
qed

lemma dates_nonempty: "dates \<noteq> []"
  by code_simp

lemma category_tables:
  assumes "c \<in> set categories"
  shows "\<exists>subs b. py_getitem subcategories c = Some subs \<and> length subs = 3 \<and>
           py_getitem base_sales_dict c = Some b"
  using assms by (auto simp: categories_def subcategories_def base_sales_dict_def py_getitem_def)

lemma loop_body_some:
  assumes ok: "random_state_ok R"
  shows "\<exists>d c subs sc rg s u q g'.
           loop_body R g = Some (\<lparr>order_date = d, category = c, sub_category = sc, region = rg,
                                   sales = max s 50, profit = s * u, quantity = q\<rparr>, g') \<and>
           d \<in> set dates \<and> py_getitem subcategories c = Some subs \<and> length subs = 3 \<and>
           sc \<in> set subs \<and> 1 / 10 \<le> u \<and> u \<le> 3 / 10 \<and> 1 \<le> q \<and> q < 10"
proof -
  obtain d g1 where 1: "choice R dates g = Some (d, g1)" "d \<in> set dates"
    using choice_some [OF ok dates_nonempty] by blast
  obtain c g2 where 2: "choice R categories g1 = Some (c, g2)" "c \<in> set categories"
    using choice_some [OF ok, of categories g1] by (auto simp: categories_def)
  obtain subs b where 3: "py_getitem subcategories c = Some subs" "length subs = 3"
      "py_getitem base_sales_dict c = Some b"
    using category_tables [OF 2(2)] by blast
  from 3(2) have "subs \<noteq> []" by auto
  then obtain sc g3 where 4: "choice R subs g2 = Some (sc, g3)" "sc \<in> set subs"
    using choice_some [OF ok] by blast
  obtain rg g4 where 5: "choice R regions g3 = Some (rg, g4)"
    using choice_some [OF ok, of regions g3] by (auto simp: regions_def)
  obtain s g5 where 6: "normal R b (b * 0.3) g4 = (s, g5)"
    by (cases "normal R b (b * 0.3) g4")
  obtain u g6 where 7: "uniform R 0.1 0.3 g5 = (u, g6)"
    by (cases "uniform R 0.1 0.3 g5")
  obtain q g7 where 8: "randint R 1 10 g6 = (q, g7)"
    by (cases "randint R 1 10 g6")
  have "(0.1::real) \<le> 0.3" by simp
  from uniform_range [OF ok this 7] have u: "1 / 10 \<le> u" "u \<le> 3 / 10" by simp_all
  have "(1::int) < 10" by simp
  from randint_range [OF ok this 8] have q: "1 \<le> q" "q < 10" by simp_all
  have "loop_body R g = Some (\<lparr>order_date = d, category = c, sub_category = sc, region = rg,
                                   sales = max s 50, profit = s * u, quantity = q\<rparr>, g7)"
    using 6 7 8 by (simp add: loop_body_def 1 2 3 4 5)
  with 1(2) 3 4(2) u q show ?thesis by blast
qed


lemma gen_data_some:
  assumes step: "\<And>g. \<exists>x g'. loop_body R g = Some (x, g') \<and> P x"
  shows "\<exists>xs g'. gen_data R n g = Some (xs, g') \<and> length xs = n \<and> list_all P xs"
proof (induction n arbitrary: g)
  case 0
  show ?case by simp
next
  case (Suc n)
  from step obtain x g1 where x: "loop_body R g = Some (x, g1)" "P x" by blast
  from Suc.IH obtain xs g2 where xs: "gen_data R n g1 = Some (xs, g2)" "length xs = n"
      "list_all P xs" by blast
  from x xs show ?case by simp
qed

lemma gen_data_length:
  "gen_data R n g = Some (xs, g') \<Longrightarrow> length xs = n"
  by (induction n arbitrary: g xs) (auto split: bind_splits)

lemma load_sample_data_some:
  assumes step: "\<And>g. \<exists>x g'. loop_body R g = Some (x, g') \<and> P (add_columns x)"
  shows "\<exists>df g'. load_sample_data R g = Some (df, g') \<and> length df = 5000 \<and> list_all P df"
proof -
  from gen_data_some [of R "\<lambda>x. P (add_columns x)" 5000 "seed R 42", OF step]
  obtain xs g' where "gen_data R 5000 (seed R 42) = Some (xs, g')" "length xs = 5000"
    "list_all (\<lambda>x. P (add_columns x)) xs" by blast
  then show ?thesis by (simp add: load_sample_data_def list_all_iff)
qed

lemma add_columns_simps [simp]:
  "order_date (add_columns x) = order_date x"
  "category (add_columns x) = category x"
  "sub_category (add_columns x) = sub_category x"
  "region (add_columns x) = region x"
  "sales (add_columns x) = sales x"
  "profit (add_columns x) = profit x"
  "quantity (add_columns x) = quantity x"
  by (simp_all add: add_columns_def order.defs split: prod.splits)

lemma add_columns_derived:
  "year (add_columns x) = fst (order_date x)"
  "month (add_columns x) = fst (snd (order_date x))"
  "year_month (add_columns x) = (fst (order_date x), fst (snd (order_date x)))"
  by (simp_all add: add_columns_def order.defs split: prod.splits)

lemma dates_range: "list_all (\<lambda>d. (2021, 1, 1) \<le> d \<and> d \<le> (2023, 12, 31)) dates"
  by code_simp

lemma low_rng_ok: "random_state_ok low_rng"
  by (simp add: random_state_ok_def low_rng_def)

lemma gen_data_first:
  assumes "loop_body R g = Some (x, g1)" and "gen_data R (Suc n) g = Some (xs, g')"
  shows "hd xs = x"
  using assms by (auto split: bind_splits)

lemma low_rng_first_order:
  "loop_body low_rng (seed low_rng 42) =
     Some (\<lparr>order_date = (2021, 1, 1), category = ''Technology'', sub_category = ''Phones'',
             region = ''Central'', sales = 50, profit = 4, quantity = 1\<rparr>, 7)"
  by code_simp

lemma mid_rng_ok: "random_state_ok mid_rng"
  by (simp add: random_state_ok_def mid_rng_def)

lemma mid_rng_first_order:
  "loop_body mid_rng (seed mid_rng 42) =
     Some (\<lparr>order_date = (2021, 1, 1), category = ''Technology'', sub_category = ''Phones'',
             region = ''Central'', sales = 1000, profit = 200, quantity = 1\<rparr>, 7)"
  by code_simp

lemma load_sample_data_first:
  assumes "load_sample_data R g = Some (df, g')" and "loop_body R (seed R 42) = Some (x, g1)"
  shows "df \<noteq> [] \<and> hd df = add_columns x"
proof -
  from assms(1) obtain xs where xs: "gen_data R 5000 (seed R 42) = Some (xs, g')"
      and df: "df = map add_columns xs"
    by (auto simp: load_sample_data_def split: bind_splits)
  from xs have run: "gen_data R (Suc 4999) (seed R 42) = Some (xs, g')" by simp
  from gen_data_first [OF assms(2) run] have first: "hd xs = x" .
  from gen_data_length [OF xs] have "xs \<noteq> []" by auto
  with df first show ?thesis by (simp add: hd_map)
qed

lemma low_rng_first_row:
  assumes "load_sample_data low_rng g = Some (df, g')"
  shows "sales (hd df) = 50 \<and> profit (hd df) = 4"
  using load_sample_data_first [OF assms low_rng_first_order] by simp

lemma low_rng_returns: "\<exists>df g'. load_sample_data low_rng g = Some (df, g')"
proof -
  have "\<exists>x g'. loop_body low_rng g = Some (x, g') \<and> True" for g
    using loop_body_some [OF low_rng_ok, of g] by blast
  from load_sample_data_some [of low_rng "\<lambda>_. True" g, OF this] show ?thesis by blast
qed

subsection \<open>Cardinality, determinism, domain integrity\<close>

text \<open>
  C6. Called on a random state that keeps numpy's documented ranges, whatever the global
  state was before, \<^verbatim>\<open>load_sample_data\<close> raises no exception and returns a frame of
  exactly 5000 rows.
\<close>

theorem generator_cardinality:
  assumes "random_state_ok R"
  shows "\<exists>df g'. load_sample_data R g = Some (df, g') \<and> length df = 5000"
proof -
  have "\<And>g. \<exists>x g'. loop_body R g = Some (x, g') \<and> True"
    using loop_body_some [OF assms] by blast
  from load_sample_data_some [of R "\<lambda>_. True", OF this] show ?thesis by blast
qed

theorem generator_cardinality_witness:
  "random_state_ok low_rng \<and>
   (\<exists>df g'. load_sample_data low_rng 7 = Some (df, g') \<and> length df = 5000)"
  by (rule conjI [OF low_rng_ok generator_cardinality [OF low_rng_ok]])

text \<open>
  C5. The function seeds the global state with 42 before its first draw, and every draw
  is a function of the state it reads: two calls return the same rows in the same order
  (and leave the same state behind), whatever the global state was at each call.
\<close>

theorem generator_deterministic:
  "load_sample_data R g1 = load_sample_data R g2"
  by (simp add: load_sample_data_def)

theorem generator_deterministic_witness:
  "load_sample_data low_rng 0 = load_sample_data low_rng 99"
  by (rule generator_deterministic)

text \<open>
  C7. Every generated row has a sub-category of the three listed for its category,
  sales of at least 50, a quantity from 1 to 9 and an order date from 2021-01-01 to
  2023-12-31.
\<close>

theorem generator_domain_integrity:
  assumes "random_state_ok R"
  shows "\<exists>df g'. load_sample_data R g = Some (df, g') \<and>
           (\<forall>r \<in> set df.
              (\<exists>subs. py_getitem subcategories (category r) = Some subs \<and> length subs = 3 \<and>
                      sub_category r \<in> set subs) \<and>
              50 \<le> sales r \<and>
              1 \<le> quantity r \<and> quantity r \<le> 9 \<and>
              (2021, 1, 1) \<le> order_date r \<and> order_date r \<le> (2023, 12, 31))"
proof -
  let ?P = "\<lambda>r::row. (\<exists>subs. py_getitem subcategories (category r) = Some subs \<and> length subs = 3 \<and>
                      sub_category r \<in> set subs) \<and>
              50 \<le> sales r \<and>
              1 \<le> quantity r \<and> quantity r \<le> 9 \<and>
              (2021, 1, 1) \<le> order_date r \<and> order_date r \<le> (2023, 12, 31)"
  have step: "\<exists>x g'. loop_body R g = Some (x, g') \<and> ?P (add_columns x)" for g
  proof -
    from loop_body_some [OF assms, of g]
    obtain d c subs sc rg s u q g' where
      body: "loop_body R g = Some (\<lparr>order_date = d, category = c, sub_category = sc,
               region = rg, sales = max s 50, profit = s * u, quantity = q\<rparr>, g')"
      and d: "d \<in> set dates"
      and subs: "py_getitem subcategories c = Some subs" "length subs = 3" "sc \<in> set subs"
      and q: "1 \<le> q" "q < 10"
      by blast
    from d dates_range have "(2021, 1, 1) \<le> d \<and> d \<le> (2023, 12, 31)"
      by (simp add: list_all_iff)
    with body subs q show ?thesis by simp
  qed
  from load_sample_data_some [of R ?P g, OF step]
  obtain df g' where "load_sample_data R g = Some (df, g')" "\<forall>r \<in> set df. ?P r"
    unfolding list_all_iff by blast
  then show ?thesis by blast
qed

theorem generator_domain_integrity_witness:
  "random_state_ok low_rng \<and>
   (\<exists>df g'. load_sample_data low_rng 0 = Some (df, g') \<and>
      (\<forall>r \<in> set df.
         (\<exists>subs. py_getitem subcategories (category r) = Some subs \<and> length subs = 3 \<and>
                 sub_category r \<in> set subs) \<and>
         50 \<le> sales r \<and>
         1 \<le> quantity r \<and> quantity r \<le> 9 \<and>
         (2021, 1, 1) \<le> order_date r \<and> order_date r \<le> (2023, 12, 31)))"
  by (rule conjI [OF low_rng_ok generator_domain_integrity [OF low_rng_ok]])

subsection \<open>Profit against the stored sales\<close>

text \<open>
  C10. The profit is the drawn sales value times a factor of at most 0.3, and the stored
  sales are the larger of that value and 50: in every generated row the profit is at
  most 0.3 times the stored sales.
\<close>

theorem profit_upper_bound:
  assumes "random_state_ok R"
  shows "\<exists>df g'. load_sample_data R g = Some (df, g') \<and>
           (\<forall>r \<in> set df. profit r \<le> 0.3 * sales r)"
proof -
  let ?P = "\<lambda>r::row. profit r \<le> 0.3 * sales r"
  have step: "\<exists>x g'. loop_body R g = Some (x, g') \<and> ?P (add_columns x)" for g
  proof -
    from loop_body_some [OF assms, of g]
    obtain d c sc rg s u q g' where
      body: "loop_body R g = Some (\<lparr>order_date = d, category = c, sub_category = sc,
               region = rg, sales = max s 50, profit = s * u, quantity = q\<rparr>, g')"
      and u: "1 / 10 \<le> u" "u \<le> 3 / 10"
      by blast
    have "s * u \<le> 0.3 * max s 50"
    proof (cases "0 \<le> s")
      case True
      with u have "s * u \<le> s * (3 / 10)" by (intro mult_left_mono) simp_all
      also have "\<dots> \<le> 0.3 * max s 50" by simp
      finally show ?thesis .
    next
      case False
      with u have "s * u \<le> 0" by (simp add: mult_le_0_iff)
      also have "\<dots> \<le> 0.3 * max s 50" by simp
      finally show ?thesis .
    qed
    with body show ?thesis by simp
  qed
  from load_sample_data_some [of R ?P g, OF step]
  obtain df g' where "load_sample_data R g = Some (df, g')" "\<forall>r \<in> set df. ?P r"
    unfolding list_all_iff by blast
  then show ?thesis by blast
qed

theorem profit_upper_bound_witness:
  "random_state_ok low_rng \<and>
   (\<exists>df g'. load_sample_data low_rng 0 = Some (df, g') \<and>
      (\<forall>r \<in> set df. profit r \<le> 0.3 * sales r) \<and>
      \<not> 0.1 * sales (hd df) \<le> profit (hd df))"
proof -
  from profit_upper_bound [OF low_rng_ok, of 0]
  obtain df g' where run: "load_sample_data low_rng 0 = Some (df, g')"
    and upper: "\<forall>r \<in> set df. profit r \<le> 0.3 * sales r" by blast
  from low_rng_first_row [OF run] have "\<not> 0.1 * sales (hd df) \<le> profit (hd df)" by simp
  with run upper low_rng_ok show ?thesis by blast
qed

text \<open>
  The lower bound 0.1 * sales \<le> profit is lost where the drawn value is under 50: the
  profit is a fraction of the draw, the stored sales are 50. With a Technology draw of
  40 (3.2 standard deviations under the mean of 1000) and the factor 0.1, the first row
  has sales 50 and profit 4, under the 5 that a tenth of the stored sales would be.
\<close>

theorem clamped_profit_counterexample:
  "random_state_ok low_rng \<and>
   map_option (\<lambda>(df, g'). (sales (hd df), profit (hd df), 0.1 * sales (hd df) \<le> profit (hd df)))
     (load_sample_data low_rng 0) = Some (50, 4, False)"
proof -
  from low_rng_returns [of 0] obtain df g' where run: "load_sample_data low_rng 0 = Some (df, g')"
    by blast
  from low_rng_first_row [OF run] run low_rng_ok show ?thesis by simp
qed

text \<open>
  C1, as the code has it. In every generated row the profit is s * u for a drawn value s
  and a factor u between 0.1 and 0.3, and the stored sales are max s 50; where the stored
  sales exceed 50 (the row was not raised to the floor), 0.1 * sales \<le> profit \<le>
  0.3 * sales.
\<close>

theorem profit_of_drawn_sales:
  assumes "random_state_ok R"
  shows "\<exists>df g'. load_sample_data R g = Some (df, g') \<and>
           (\<forall>r \<in> set df.
              (\<exists>s u. 0.1 \<le> u \<and> u \<le> 0.3 \<and> profit r = s * u \<and> sales r = max s 50) \<and>
              (50 < sales r \<longrightarrow> 0.1 * sales r \<le> profit r \<and> profit r \<le> 0.3 * sales r))"
proof -
  let ?P = "\<lambda>r::row. (\<exists>s u. 0.1 \<le> u \<and> u \<le> 0.3 \<and> profit r = s * u \<and> sales r = max s 50) \<and>
              (50 < sales r \<longrightarrow> 0.1 * sales r \<le> profit r \<and> profit r \<le> 0.3 * sales r)"
  have step: "\<exists>x g'. loop_body R g = Some (x, g') \<and> ?P (add_columns x)" for g
  proof -
    from loop_body_some [OF assms, of g]
    obtain d c sc rg s u q g' where
      body: "loop_body R g = Some (\<lparr>order_date = d, category = c, sub_category = sc,
               region = rg, sales = max s 50, profit = s * u, quantity = q\<rparr>, g')"
      and u: "1 / 10 \<le> u" "u \<le> 3 / 10"
      by blast
    have a: "\<exists>s' u'. 0.1 \<le> u' \<and> u' \<le> 0.3 \<and> s * u = s' * u' \<and> max s 50 = max s' 50"
      using u by (intro exI [of _ s] exI [of _ u]) simp
    have b: "0.1 * max s 50 \<le> s * u \<and> s * u \<le> 0.3 * max s 50" if "50 < max s 50"
    proof -
      from that have s: "50 < s" "max s 50 = s" by (simp_all add: max_def split: if_splits)
      with u have "s * (1 / 10) \<le> s * u" "s * u \<le> s * (3 / 10)"
        by (intro mult_left_mono; simp)+
      with s show ?thesis by simp
    qed
    from body a b show ?thesis by simp
  qed
  from load_sample_data_some [of R ?P g, OF step]
  obtain df g' where "load_sample_data R g = Some (df, g')" "\<forall>r \<in> set df. ?P r"
    unfolding list_all_iff by blast
  then show ?thesis by blast
qed

theorem profit_of_drawn_sales_witness:
  "random_state_ok mid_rng \<and>
   (\<exists>df g'. load_sample_data mid_rng 0 = Some (df, g') \<and>
      (\<forall>r \<in> set df.
         (\<exists>s u. 0.1 \<le> u \<and> u \<le> 0.3 \<and> profit r = s * u \<and> sales r = max s 50) \<and>
         (50 < sales r \<longrightarrow> 0.1 * sales r \<le> profit r \<and> profit r \<le> 0.3 * sales r)) \<and>
      hd df \<in> set df \<and> sales (hd df) = 1000 \<and> profit (hd df) = 200)"
proof -
  from profit_of_drawn_sales [OF mid_rng_ok, of 0]
  obtain df g' where run: "load_sample_data mid_rng 0 = Some (df, g')"
    and all: "\<forall>r \<in> set df.
         (\<exists>s u. 0.1 \<le> u \<and> u \<le> 0.3 \<and> profit r = s * u \<and> sales r = max s 50) \<and>
         (50 < sales r \<longrightarrow> 0.1 * sales r \<le> profit r \<and> profit r \<le> 0.3 * sales r)"
    by blast
  from load_sample_data_first [OF run mid_rng_first_order]
  have ne: "df \<noteq> []" and first: "sales (hd df) = 1000 \<and> profit (hd df) = 200"
    by simp_all
  from ne have "hd df \<in> set df" by simp
  with run all first mid_rng_ok show ?thesis by blast
qed

section \<open>The aggregation tables\<close>

subsection \<open>Group totals\<close>

lemma group_add_keys:
  "map fst (group_add k v gs) = (if k \<in> fst ` set gs then map fst gs else map fst gs @ [k])"
  by (induction gs) (force simp: image_iff)+

lemma distinct_group_add:
  "distinct (map fst gs) \<Longrightarrow> distinct (map fst (group_add k v gs))"
  by (simp add: group_add_keys)

lemma map_of_group_add:
  "map_of (group_add k v gs) k' =
     (if k' = k then Some ((case map_of gs k of None \<Rightarrow> 0 | Some t \<Rightarrow> t) + v) else map_of gs k')"
  by (induction gs) auto

lemma sum_group_add:
  "sum_list (map snd (group_add k v gs)) = sum_list (map snd gs) + v"
  by (induction gs) auto

lemma group_totals_Nil: "group_totals key col [] = []"
  by (simp add: group_totals_def)

lemma group_totals_snoc:
  "group_totals key col (df @ [r]) = group_add (key r) (col r) (group_totals key col df)"
  by (simp add: group_totals_def)

lemma distinct_group_totals: "distinct (map fst (group_totals key col df))"
  by (induction df rule: rev_induct)
     (simp_all add: group_totals_Nil group_totals_snoc distinct_group_add)

lemma filter_absent_key:
  "k \<notin> key ` set df \<Longrightarrow> filter (\<lambda>r. key r = k) df = []"
  by (auto simp: filter_empty_conv)

lemma map_of_group_totals:
  "map_of (group_totals key col df) k =
     (if k \<in> key ` set df then Some (sum_list (map col (filter (\<lambda>r. key r = k) df))) else None)"
proof (induction df rule: rev_induct)
  case Nil
  show ?case by (simp add: group_totals_Nil)
next
  case (snoc r df)
  then show ?case
    by (auto simp: group_totals_snoc map_of_group_add filter_absent_key)
qed

lemma sum_group_totals:
  "sum_list (map snd (group_totals key col df)) = sum_list (map col df)"
  by (induction df rule: rev_induct)
     (simp_all add: group_totals_Nil group_totals_snoc sum_group_add)

lemma sum_insort_key:
  fixes g :: "'a \<Rightarrow> real"
  shows "sum_list (map g (insort_key f x xs)) = g x + sum_list (map g xs)"
  by (induction xs) (auto simp: algebra_simps)

lemma sum_sort_key:
  fixes g :: "'a \<Rightarrow> real"
  shows "sum_list (map g (sort_key f xs)) = sum_list (map g xs)"
  by (induction xs) (simp_all add: sum_insort_key)

lemma distinct_keys_sort_key:
  "distinct (map fst (sort_key fst gs)) = distinct (map fst gs)"
  by (simp add: distinct_map)

lemma groupby_sum_sorted: "sorted (map fst (groupby_sum key col df))"
  by (simp add: groupby_sum_def)

lemma groupby_sum_distinct: "distinct (map fst (groupby_sum key col df))"
  by (simp add: groupby_sum_def distinct_keys_sort_key distinct_group_totals)

lemma groupby_sum_member:
  "(k, v) \<in> set (groupby_sum key col df) \<longleftrightarrow>
     k \<in> key ` set df \<and> v = sum_list (map col (filter (\<lambda>r. key r = k) df))"
proof -
  have "(k, v) \<in> set (groupby_sum key col df) \<longleftrightarrow> (k, v) \<in> set (group_totals key col df)"
    by (simp add: groupby_sum_def)
  also have "\<dots> \<longleftrightarrow> map_of (group_totals key col df) k = Some v"
    by (simp add: distinct_group_totals)
  also have "\<dots> \<longleftrightarrow> k \<in> key ` set df \<and> v = sum_list (map col (filter (\<lambda>r. key r = k) df))"
    by (auto simp: map_of_group_totals)
  finally show ?thesis .
qed

lemma groupby_sum_keys: "fst ` set (groupby_sum key col df) = key ` set df"
proof (rule set_eqI)
  fix k
  have "k \<in> fst ` set (groupby_sum key col df) \<longleftrightarrow> (\<exists>v. (k, v) \<in> set (groupby_sum key col df))"
    by (force simp: image_iff)
  also have "\<dots> \<longleftrightarrow> k \<in> key ` set df"
    by (simp add: groupby_sum_member)
  finally show "k \<in> fst ` set (groupby_sum key col df) \<longleftrightarrow> k \<in> key ` set df" .
qed

lemma map_of_groupby_sum:
  "map_of (groupby_sum key col df) k =
     (if k \<in> key ` set df then Some (sum_list (map col (filter (\<lambda>r. key r = k) df))) else None)"
proof (cases "k \<in> key ` set df")
  case True
  then have "(k, sum_list (map col (filter (\<lambda>r. key r = k) df))) \<in> set (groupby_sum key col df)"
    by (simp add: groupby_sum_member)
  with groupby_sum_distinct [of key col df] True show ?thesis by simp
next
  case False
  then have "k \<notin> fst ` set (groupby_sum key col df)" by (simp add: groupby_sum_keys)
  with False show ?thesis by (simp add: map_of_eq_None_iff)
qed

lemma groupby_sum_total:
  "sum_list (map snd (groupby_sum key col df)) = sum_list (map col df)"
  by (simp add: groupby_sum_def sum_sort_key sum_group_totals)

lemma groupby_sum_Nil: "groupby_sum key col [] = []"
  by (simp add: groupby_sum_def group_totals_Nil)


subsection \<open>Sorting by value\<close>

lemma argsort_from_pairs:
  assumes set_ps: "set ps = set (zip a [0 ..< length a])"
    and len: "length ps = length a"
    and srt: "sorted (map fst ps)"
  shows "distinct (map snd ps) \<and> set (map snd ps) = {0 ..< length a} \<and>
         sorted (map (\<lambda>i. a ! i) (map snd ps))"
proof -
  have z: "map snd (zip a [0 ..< length a]) = [0 ..< length a]"
    by (rule map_snd_zip) simp
  have "set (map snd ps) = snd ` set ps" by (simp only: set_map)
  also have "\<dots> = snd ` set (zip a [0 ..< length a])" by (simp only: set_ps)
  also have "\<dots> = set (map snd (zip a [0 ..< length a]))" by (simp only: set_map)
  also have "\<dots> = {0 ..< length a}" by (simp only: z set_upt)
  finally have s: "set (map snd ps) = {0 ..< length a}" .
  then have "card (set (map snd ps)) = length (map snd ps)" by (simp add: len)
  then have d: "distinct (map snd ps)" by (rule card_distinct)
  have nth: "a ! snd p = fst p" if "p \<in> set ps" for p
  proof -
    from that set_ps have "p \<in> set (zip a [0 ..< length a])" by simp
    then show ?thesis by (auto simp: set_zip)
  qed
  have "map (\<lambda>i. a ! i) (map snd ps) = map (\<lambda>p. a ! snd p) ps"
    by (simp only: map_map comp_def)
  also have "\<dots> = map fst ps"
    by (rule map_cong [OF refl]) (rule nth)
  finally have eq: "map (\<lambda>i. a ! i) (map snd ps) = map fst ps" .
  have "sorted (map (\<lambda>i. a ! i) (map snd ps))"
    unfolding eq by (rule srt)
  with d s show ?thesis by blast
qed

lemma stable_argsort_ok: "argsort_ok stable_argsort"
  unfolding argsort_ok_def stable_argsort_def
  by (intro allI argsort_from_pairs) simp_all

lemma reversing_argsort_ok: "argsort_ok reversing_argsort"
  unfolding argsort_ok_def reversing_argsort_def
  by (intro allI argsort_from_pairs) simp_all

lemma reversed_positions:
  assumes "j < n"
  shows "rev [0 ..< n] ! j = n - Suc j"
  using assms by (simp add: rev_nth)

lemma nargsort_descending:
  assumes ok: "argsort_ok kind"
  shows "distinct (nargsort kind False items) \<and>
         set (nargsort kind False items) = {0 ..< length items} \<and>
         sorted_wrt (\<lambda>i j. items ! j \<le> items ! i) (nargsort kind False items)"
proof -
  let ?n = "length items"
  let ?K = "kind (rev items)"
  from ok have "distinct ?K \<and> set ?K = {0 ..< length (rev items)} \<and>
      sorted (map (\<lambda>i. rev items ! i) ?K)"
    unfolding argsort_ok_def by blast
  then have K: "distinct ?K" "set ?K = {0 ..< ?n}" "sorted (map (\<lambda>i. rev items ! i) ?K)"
    by simp_all
  have flip: "map (\<lambda>j. rev [0 ..< ?n] ! j) ?K = map (\<lambda>j. ?n - Suc j) ?K"
    using K(2) by (intro map_cong refl reversed_positions) simp
  have I: "nargsort kind False items = rev (map (\<lambda>j. ?n - Suc j) ?K)"
    by (simp add: nargsort_def Let_def flip del: upt.simps)
  have inj: "inj_on (\<lambda>j. ?n - Suc j) (set ?K)"
    unfolding K(2)
  proof (rule inj_onI)
    fix x y
    assume "x \<in> {0 ..< ?n}" "y \<in> {0 ..< ?n}" and eq: "?n - Suc x = ?n - Suc y"
    then have "x < ?n" "y < ?n" by simp_all
    with eq show "x = y" by arith
  qed
  have d: "distinct (nargsort kind False items)"
    unfolding I using K(1) inj by (simp add: distinct_map)
  have "(\<lambda>j. ?n - Suc j) ` {0 ..< ?n} = {0 ..< ?n}"
  proof (rule set_eqI)
    fix i
    show "i \<in> (\<lambda>j. ?n - Suc j) ` {0 ..< ?n} \<longleftrightarrow> i \<in> {0 ..< ?n}"
    proof
      assume "i \<in> (\<lambda>j. ?n - Suc j) ` {0 ..< ?n}"
      then show "i \<in> {0 ..< ?n}" by auto
    next
      assume i: "i \<in> {0 ..< ?n}"
      then have "i = ?n - Suc (?n - Suc i)" "?n - Suc i \<in> {0 ..< ?n}" by auto
      then show "i \<in> (\<lambda>j. ?n - Suc j) ` {0 ..< ?n}" by (rule image_eqI)
    qed
  qed
  then have s: "set (nargsort kind False items) = {0 ..< ?n}"
    unfolding I by (simp add: K(2) del: upt.simps)
  have "sorted_wrt (\<lambda>x y. rev items ! x \<le> rev items ! y) ?K"
    using K(3) by (simp add: sorted_wrt_map)
  then have "sorted_wrt (\<lambda>x y. items ! (?n - Suc x) \<le> items ! (?n - Suc y)) ?K"
  proof (rule sorted_wrt_mono_rel [rotated])
    fix x y
    assume "x \<in> set ?K" "y \<in> set ?K" "rev items ! x \<le> rev items ! y"
    with K(2) show "items ! (?n - Suc x) \<le> items ! (?n - Suc y)"
      by (simp add: rev_nth)
  qed
  then have o: "sorted_wrt (\<lambda>i j. items ! j \<le> items ! i) (nargsort kind False items)"
    unfolding I by (simp add: sorted_wrt_rev sorted_wrt_map)
  from d s o show ?thesis by blast
qed

lemma sort_values_descending:
  assumes ok: "argsort_ok kind"
  shows "set (sort_values kind False s) = set s"
    and "length (sort_values kind False s) = length s"
    and "distinct (map fst s) \<Longrightarrow> distinct (map fst (sort_values kind False s))"
    and "sorted_wrt (\<lambda>a b. snd b \<le> snd a) (sort_values kind False s)"
proof -
  let ?I = "nargsort kind False (map snd s)"
  from nargsort_descending [OF ok, of "map snd s"]
  have d: "distinct ?I" and i: "set ?I = {0 ..< length s}"
    and o: "sorted_wrt (\<lambda>i j. map snd s ! j \<le> map snd s ! i) ?I"
    by simp_all
  have "set (sort_values kind False s) = (\<lambda>i. s ! i) ` {0 ..< length s}"
    by (simp add: sort_values_def i del: upt.simps)
  also have "\<dots> = set s"
    by (auto simp: set_conv_nth)
  finally show "set (sort_values kind False s) = set s" .
  from d i have "length ?I = length s"
    by (metis card_atLeastLessThan diff_zero distinct_card)
  then show "length (sort_values kind False s) = length s"
    by (simp add: sort_values_def)
  show "distinct (map fst (sort_values kind False s))" if keys: "distinct (map fst s)"
  proof -
    have "inj_on (\<lambda>i. fst (s ! i)) (set ?I)"
    proof (rule inj_onI)
      fix x y
      assume "x \<in> set ?I" "y \<in> set ?I" "fst (s ! x) = fst (s ! y)"
      with i have "x < length (map fst s)" "y < length (map fst s)"
        "map fst s ! x = map fst s ! y" by simp_all
      with keys show "x = y" by (simp only: nth_eq_iff_index_eq)
    qed
    with d show ?thesis
      by (simp add: sort_values_def distinct_map comp_def)
  qed
  from o have "sorted_wrt (\<lambda>i j. snd (s ! j) \<le> snd (s ! i)) ?I"
  proof (rule sorted_wrt_mono_rel [rotated])
    fix x y
    assume "x \<in> set ?I" "y \<in> set ?I" "map snd s ! y \<le> map snd s ! x"
    with i show "snd (s ! y) \<le> snd (s ! x)" by simp
  qed
  then show "sorted_wrt (\<lambda>a b. snd b \<le> snd a) (sort_values kind False s)"
    by (simp add: sort_values_def sorted_wrt_map)
qed

lemma sort_values_Nil:
  assumes "argsort_ok kind"
  shows "sort_values kind False [] = []"
  using sort_values_descending(2) [OF assms, of "[]"] by simp

subsection \<open>Strictly ordered groups\<close>

lemma groupby_sum_strict: "sorted_wrt (\<lambda>a b. fst a < fst b) (groupby_sum key col df)"
proof -
  have "sorted_wrt (<) (map fst (groupby_sum key col df))"
    using groupby_sum_sorted [of key col df] groupby_sum_distinct [of key col df]
    by (simp only: strict_sorted_iff)
  then show ?thesis by (simp only: sorted_wrt_map)
qed

subsection \<open>Totals by category, monthly totals\<close>

text \<open>
  C8. The totals of \<^verbatim>\<open>category_sales\<close> add up to the sum of Sales over all rows of the
  frame (exactly, in real arithmetic).
\<close>

theorem category_sales_conserve_total:
  "sum_list (map snd (category_sales df)) = sum_list (map sales df)"
  by (simp add: category_sales_def groupby_sum_total)

theorem category_sales_conserve_total_witness:
  "sum_list (map snd (category_sales scenario)) = 500"
proof -
  have "sum_list (map sales scenario) = 500" by code_simp
  with category_sales_conserve_total [of scenario] show ?thesis by simp
qed

text \<open>
  C9. \<^verbatim>\<open>monthly_sales\<close> has one row per pair (Year-Month, Category) that occurs in the
  frame, holding the sum of Sales of the rows with that pair; the rows are in ascending
  order of year and month, and of category within a month.
\<close>

theorem monthly_sales_grouped_ordered:
  "sorted_wrt (\<lambda>((y1, m1), c1, t1) ((y2, m2), c2, t2).
                 y1 < y2 \<or> (y1 = y2 \<and> (m1 < m2 \<or> (m1 = m2 \<and> c1 < c2))))
     (monthly_sales df) \<and>
   ((ym, c, t) \<in> set (monthly_sales df) \<longleftrightarrow>
      (\<exists>r \<in> set df. year_month r = ym \<and> category r = c) \<and>
      t = sum_list (map sales (filter (\<lambda>r. year_month r = ym \<and> category r = c) df)))"
proof
  let ?G = "groupby_sum (\<lambda>r. (year_month r, category r)) sales df"
  have strict: "sorted_wrt (\<lambda>a b. fst a < fst b) ?G" by (rule groupby_sum_strict)
  show "sorted_wrt (\<lambda>((y1, m1), c1, t1) ((y2, m2), c2, t2).
                 y1 < y2 \<or> (y1 = y2 \<and> (m1 < m2 \<or> (m1 = m2 \<and> c1 < c2))))
     (monthly_sales df)"
    unfolding monthly_sales_def sorted_wrt_map
    by (rule sorted_wrt_mono_rel [OF _ strict]) (auto simp: less_prod_def)
next
  have "(ym, c, t) \<in> set (monthly_sales df) \<longleftrightarrow>
        ((ym, c), t) \<in> set (groupby_sum (\<lambda>r. (year_month r, category r)) sales df)"
    by (force simp: monthly_sales_def image_iff)
  then show "(ym, c, t) \<in> set (monthly_sales df) \<longleftrightarrow>
      (\<exists>r \<in> set df. year_month r = ym \<and> category r = c) \<and>
      t = sum_list (map sales (filter (\<lambda>r. year_month r = ym \<and> category r = c) df))"
    by (auto simp: groupby_sum_member image_iff)
qed

theorem monthly_sales_grouped_ordered_witness:
  "sorted_wrt (\<lambda>((y1, m1), c1, t1) ((y2, m2), c2, t2).
                 y1 < y2 \<or> (y1 = y2 \<and> (m1 < m2 \<or> (m1 = m2 \<and> c1 < c2))))
     (monthly_sales scenario) \<and>
   ((2021, 2), ''Furniture'', 200) \<in> set (monthly_sales scenario)"
proof -
  have "(\<exists>r \<in> set scenario. year_month r = (2021, 2) \<and> category r = ''Furniture'') \<and>
        (200::real) = sum_list (map sales
           (filter (\<lambda>r. year_month r = (2021, 2) \<and> category r = ''Furniture'') scenario))"
    by code_simp
  with monthly_sales_grouped_ordered [of scenario "(2021, 2)" "''Furniture''" 200]
  show ?thesis by blast
qed

subsection \<open>The region by category matrix\<close>

lemma map_of_tabulate:
  "map_of (map (\<lambda>k. (k, f k)) ks) k = (if k \<in> set ks then Some (f k) else None)"
  by (simp add: map_of_map_restrict restrict_map_def)

lemma unstack_loc:
  "loc (unstack fill_value s) i c =
     (if i \<in> fst ` fst ` set s \<and> c \<in> snd ` fst ` set s
      then Some (case map_of s (i, c) of Some v \<Rightarrow> v | None \<Rightarrow> fill_value) else None)"
proof -
  have idx: "(\<lambda>(k, v). fst k) ` set s = fst ` fst ` set s"
    by (force simp: image_iff)
  have cols: "(\<lambda>(k, v). snd k) ` set s = snd ` fst ` set s"
    by (force simp: image_iff)
  show ?thesis
    by (simp add: loc_def unstack_def Let_def map_of_tabulate idx cols)
qed

lemma groupby_sum_lookup:
  "(case map_of (groupby_sum key col df) k of Some v \<Rightarrow> v | None \<Rightarrow> 0) =
     sum_list (map col (filter (\<lambda>r. key r = k) df))"
  by (simp add: map_of_groupby_sum filter_absent_key)

text \<open>
  Of the scenario, keep the rows of region West: the matrix of that view has the one
  row West and the one column Technology. The pair (East, Furniture), which occurs in
  the unfiltered frame, has no cell.
\<close>

theorem filtered_heatmap_counterexample:
  "(''East'', ''Furniture'') \<in> set (map (\<lambda>r. (region r, category r)) scenario) \<and>
   loc (heatmap_data (filtered_df scenario [2021] [''Technology'', ''Furniture''] [''West'']))
     ''East'' ''Furniture'' = None"
  by code_simp

text \<open>
  C2, as the code has it. The matrix has a cell for exactly the pairs of a region that
  occurs in the frame it is given and a category that occurs in that frame; the cell
  holds the sum of Sales of the rows with that region and category, which is 0 when
  there is no such row. Regions and categories that occur only outside the filtered
  frame have no cell.
\<close>

theorem heatmap_data_cells:
  "loc (heatmap_data df) r c =
     (if r \<in> region ` set df \<and> c \<in> category ` set df
      then Some (sum_list (map sales (filter (\<lambda>x. region x = r \<and> category x = c) df)))
      else None)"
proof -
  let ?key = "\<lambda>x::row. (region x, category x)"
  have 1: "fst ` fst ` set (groupby_sum ?key sales df) = region ` set df"
    by (simp add: groupby_sum_keys image_image)
  have 2: "snd ` fst ` set (groupby_sum ?key sales df) = category ` set df"
    by (simp add: groupby_sum_keys image_image)
  have 3: "(case map_of (groupby_sum ?key sales df) (r, c) of Some v \<Rightarrow> v | None \<Rightarrow> 0) =
           sum_list (map sales (filter (\<lambda>x. region x = r \<and> category x = c) df))"
    by (simp add: groupby_sum_lookup)
  show ?thesis
    unfolding heatmap_data_def unstack_loc 1 2 3 ..
qed

theorem heatmap_data_cells_witness:
  "loc (heatmap_data scenario) ''West'' ''Furniture'' = Some 0 \<and>
   loc (heatmap_data scenario) ''East'' ''Furniture'' = Some 200 \<and>
   loc (heatmap_data scenario) ''North'' ''Furniture'' = None"
proof -
  have "loc (heatmap_data scenario) ''West'' ''Furniture'' = Some 0"
    unfolding heatmap_data_cells [of scenario] by code_simp
  moreover have "loc (heatmap_data scenario) ''East'' ''Furniture'' = Some 200"
    unfolding heatmap_data_cells [of scenario] by code_simp
  moreover have "loc (heatmap_data scenario) ''North'' ''Furniture'' = None"
    unfolding heatmap_data_cells [of scenario] by code_simp
  ultimately show ?thesis by blast
qed

subsection \<open>The empty frame\<close>

text \<open>
  The matrix of the empty frame has no row and no column: the regions and categories
  the generator knows are not keys of it.
\<close>

theorem empty_heatmap_counterexample:
  "''Central'' \<in> set regions \<and> ''Technology'' \<in> set categories \<and>
   loc (heatmap_data []) ''Central'' ''Technology'' = None"
  by code_simp

text \<open>
  C3, as the code has it. On the empty frame the three grouped tables are empty and the
  matrix is empty too (no keys, no zero cells), whichever sort numpy runs;
  \<^verbatim>\<open>main\<close> computes none of the four for an empty filtered frame.
\<close>

theorem empty_view_tables:
  assumes "argsort_ok kind"
  shows "monthly_sales [] = [] \<and> category_sales [] = [] \<and> top_subcats kind [] = [] \<and>
         heatmap_data [] = [] \<and>
         sales_analysis kind [] =
           \<lparr>line_fig = None, bar_fig = None, top_chart = None, heatmap_fig = None\<rparr>"
  using sort_values_Nil [OF assms]
  by (simp add: monthly_sales_def category_sales_def top_subcats_def heatmap_data_def
      sales_analysis_def groupby_sum_Nil unstack_def)

theorem empty_view_tables_witness:
  "argsort_ok stable_argsort \<and>
   monthly_sales [] = [] \<and> category_sales [] = [] \<and> top_subcats stable_argsort [] = [] \<and>
   heatmap_data [] = [] \<and>
   sales_analysis stable_argsort [] =
     \<lparr>line_fig = None, bar_fig = None, top_chart = None, heatmap_fig = None\<rparr>"
  by (rule conjI [OF stable_argsort_ok empty_view_tables [OF stable_argsort_ok]])

subsection \<open>The five best sub-categories\<close>

text \<open>
  The sort reads the grouped series, whose groups are in ascending order of their names
  whatever the order of the rows: the scenario and the scenario read backwards give the
  same series, hence the same table under any sort.
\<close>

lemma scenario_groups:
  "groupby_sum sub_category sales scenario =
     [(''Chairs'', 200), (''Computers'', 200), (''Phones'', 100)]"
  "groupby_sum sub_category sales (rev scenario) =
     [(''Chairs'', 200), (''Computers'', 200), (''Phones'', 100)]"
  by code_simp+

lemma top_subcats_row_order:
  "top_subcats kind (rev scenario) = top_subcats kind scenario"
  by (simp only: top_subcats_def scenario_groups)

text \<open>
  What the table looks like among equal sums is the sort's doing: a stable sort lists
  Chairs before Computers, a sort that reverses equal values lists Computers first, and
  with six equal sums the two keep different sets of five.
\<close>

lemma tie_order_follows_the_sort:
  "top_subcats stable_argsort scenario =
     [(''Chairs'', 200), (''Computers'', 200), (''Phones'', 100)]"
  "top_subcats reversing_argsort scenario =
     [(''Computers'', 200), (''Chairs'', 200), (''Phones'', 100)]"
  by code_simp+

lemma top_five_follows_the_sort:
  "map fst (top_subcats stable_argsort six_equal) =
     [''Accessories'', ''Chairs'', ''Computers'', ''Phones'', ''Storage'']"
  "map fst (top_subcats reversing_argsort six_equal) =
     [''Tables'', ''Storage'', ''Phones'', ''Computers'', ''Chairs'']"
  by code_simp+

text \<open>
  In the scenario Chairs and Computers both total 200 and Phones totals 100. Computers
  is met before Chairs, so descending sums with ties in the order of first appearance
  would be Computers, Chairs, Phones; read backwards, Chairs is met first and the order
  would be Chairs, Computers, Phones. No sort yields both, the two tables being the same.
\<close>

theorem encounter_order_counterexample:
  "map sub_category scenario = [''Phones'', ''Computers'', ''Chairs'', ''Chairs''] \<and>
   map sub_category (rev scenario) = [''Chairs'', ''Chairs'', ''Computers'', ''Phones''] \<and>
   groupby_sum sub_category sales scenario =
     [(''Chairs'', 200), (''Computers'', 200), (''Phones'', 100)] \<and>
   \<not> (\<exists>kind.
        map fst (top_subcats kind scenario) = [''Computers'', ''Chairs'', ''Phones''] \<and>
        map fst (top_subcats kind (rev scenario)) = [''Chairs'', ''Computers'', ''Phones''])"
proof -
  have "map sub_category scenario = [''Phones'', ''Computers'', ''Chairs'', ''Chairs'']"
    by code_simp
  moreover have "map sub_category (rev scenario) =
      [''Chairs'', ''Chairs'', ''Computers'', ''Phones'']"
    by code_simp
  moreover have "\<not> (\<exists>kind.
        map fst (top_subcats kind scenario) = [''Computers'', ''Chairs'', ''Phones''] \<and>
        map fst (top_subcats kind (rev scenario)) = [''Chairs'', ''Computers'', ''Phones''])"
    by (simp add: top_subcats_row_order)
  ultimately show ?thesis using scenario_groups(1) by blast
qed

text \<open>
  C4, as the code has it. Under any sort that numpy's contract admits,
  \<^verbatim>\<open>top_subcats\<close> is the first five entries (all of them when there are fewer) of a
  list of all sub-categories of the frame, each once with the sum of its Sales, in
  descending (non-increasing) order of the sums. Nothing is said of the order among
  equal sums, nor of which of them are kept when a tie reaches past the fifth place.
\<close>

theorem top_subcats_first_five:
  assumes "argsort_ok kind"
  shows "\<exists>rest.
     sorted_wrt (\<lambda>(k1, v1) (k2, v2). v2 \<le> v1) (top_subcats kind df @ rest) \<and>
     distinct (map fst (top_subcats kind df @ rest)) \<and>
     (\<forall>k v. (k, v) \<in> set (top_subcats kind df @ rest) \<longleftrightarrow>
        k \<in> sub_category ` set df \<and>
        v = sum_list (map sales (filter (\<lambda>r. sub_category r = k) df))) \<and>
     length (top_subcats kind df) = min 5 (length (top_subcats kind df @ rest))"
proof -
  let ?G = "groupby_sum sub_category sales df"
  let ?all = "sort_values kind False ?G"
  have split: "top_subcats kind df @ drop 5 ?all = ?all"
    by (simp add: top_subcats_def)
  have "sorted_wrt (\<lambda>a b. snd b \<le> snd a) ?all"
    by (rule sort_values_descending(4) [OF assms])
  then have "sorted_wrt (\<lambda>(k1, v1) (k2, v2). v2 \<le> v1) ?all"
    by (rule sorted_wrt_mono_rel [rotated]) auto
  moreover have "distinct (map fst ?all)"
    by (rule sort_values_descending(3) [OF assms groupby_sum_distinct])
  moreover have "\<forall>k v. (k, v) \<in> set ?all \<longleftrightarrow>
        k \<in> sub_category ` set df \<and>
        v = sum_list (map sales (filter (\<lambda>r. sub_category r = k) df))"
    by (simp add: sort_values_descending(1) [OF assms] groupby_sum_member)
  moreover have "length (top_subcats kind df) = min 5 (length ?all)"
    by (simp add: top_subcats_def min.commute)
  ultimately have "sorted_wrt (\<lambda>(k1, v1) (k2, v2). v2 \<le> v1)
       (top_subcats kind df @ drop 5 ?all) \<and>
     distinct (map fst (top_subcats kind df @ drop 5 ?all)) \<and>
     (\<forall>k v. (k, v) \<in> set (top_subcats kind df @ drop 5 ?all) \<longleftrightarrow>
        k \<in> sub_category ` set df \<and>
        v = sum_list (map sales (filter (\<lambda>r. sub_category r = k) df))) \<and>
     length (top_subcats kind df) = min 5 (length (top_subcats kind df @ drop 5 ?all))"
    unfolding split by blast
  then show ?thesis ..
qed

theorem top_subcats_first_five_witness:
  "argsort_ok reversing_argsort \<and>
   top_subcats reversing_argsort scenario =
     [(''Computers'', 200), (''Chairs'', 200), (''Phones'', 100)] \<and>
   (\<exists>rest.
     sorted_wrt (\<lambda>(k1, v1) (k2, v2). v2 \<le> v1) (top_subcats reversing_argsort scenario @ rest) \<and>
     distinct (map fst (top_subcats reversing_argsort scenario @ rest)) \<and>
     (\<forall>k v. (k, v) \<in> set (top_subcats reversing_argsort scenario @ rest) \<longleftrightarrow>
        k \<in> sub_category ` set scenario \<and>
        v = sum_list (map sales (filter (\<lambda>r. sub_category r = k) scenario))) \<and>
     length (top_subcats reversing_argsort scenario) =
       min 5 (length (top_subcats reversing_argsort scenario @ rest)))"
  using reversing_argsort_ok tie_order_follows_the_sort(2)
    top_subcats_first_five [OF reversing_argsort_ok, of scenario]
  by (intro conjI)

end
